theory Spec2Isabelle
  imports Complex_Main "HOL-Library.Product_Lexorder"
begin

section \<open>Calendar dates and times of day\<close>

text \<open>
  \<^verbatim>\<open>app.py\<close> works on \<^verbatim>\<open>datetime.date\<close> and naive \<^verbatim>\<open>datetime.time\<close> values. Of
  the standard library only what the program calls is modelled: construction (with the
  range check that raises \<^verbatim>\<open>ValueError\<close>), the comparisons, \<^verbatim>\<open>date.weekday()\<close>
  and the day count of a difference of two dates. Python compares two dates as the
  tuples \<^verbatim>\<open>(year, month, day)\<close> and two naive times as the tuples
  \<^verbatim>\<open>(hour, minute, second, microsecond)\<close>; \<^verbatim>\<open>toordinal\<close> is the proleptic Gregorian
  day number with 0001-01-01 as day 1; \<^verbatim>\<open>//\<close> and \<^verbatim>\<open>%\<close> on Python's unbounded integers
  are \<open>div\<close> and \<open>mod\<close> on \<^typ>\<open>int\<close>.
\<close>

datatype date = Date (year: int) (month: int) (day: int)

datatype time = Time (hour: int) (minute: int) (second: int) (microsecond: int)

definition date_key :: "date \<Rightarrow> int \<times> int \<times> int" where
  "date_key a = (year a, month a, day a)"

definition time_key :: "time \<Rightarrow> int \<times> int \<times> int \<times> int" where
  "time_key a = (hour a, minute a, second a, microsecond a)"

instantiation date :: linorder
begin

definition less_eq_date :: "date \<Rightarrow> date \<Rightarrow> bool" where
  "less_eq_date a b \<longleftrightarrow> date_key a \<le> date_key b"

definition less_date :: "date \<Rightarrow> date \<Rightarrow> bool" where
  "less_date a b \<longleftrightarrow> date_key a < date_key b"

instance
  by standard
    (auto simp: less_eq_date_def less_date_def date_key_def intro: date.expand)

end

instantiation time :: linorder
begin

definition less_eq_time :: "time \<Rightarrow> time \<Rightarrow> bool" where
  "less_eq_time a b \<longleftrightarrow> time_key a \<le> time_key b"

definition less_time :: "time \<Rightarrow> time \<Rightarrow> bool" where
  "less_time a b \<longleftrightarrow> time_key a < time_key b"

instance
  by standard
    (auto simp: less_eq_time_def less_time_def time_key_def intro: time.expand)

end

definition is_leap :: "int \<Rightarrow> bool" where
  "is_leap y \<longleftrightarrow> y mod 4 = 0 \<and> (y mod 100 \<noteq> 0 \<or> y mod 400 = 0)"

definition days_before_year :: "int \<Rightarrow> int" where
  "days_before_year y = (let z = y - 1 in z * 365 + z div 4 - z div 100 + z div 400)"

definition days_in_month :: "int \<Rightarrow> int \<Rightarrow> int" where
  "days_in_month y m =
     (if m = 2 then (if is_leap y then 29 else 28)
      else if m = 4 \<or> m = 6 \<or> m = 9 \<or> m = 11 then 30 else 31)"

definition days_before_month :: "int \<Rightarrow> int \<Rightarrow> int" where
  "days_before_month y m =
     [0, 31, 59, 90, 120, 151, 181, 212, 243, 273, 304, 334] ! nat (m - 1)
       + (if m > 2 \<and> is_leap y then 1 else 0)"

text \<open>The objects that \<^verbatim>\<open>date(y, m, d)\<close> and \<^verbatim>\<open>time(h, m, s, us)\<close> can construct.\<close>

definition valid_date :: "date \<Rightarrow> bool" where
  "valid_date a \<longleftrightarrow>
     1 \<le> year a \<and> year a \<le> 9999 \<and> 1 \<le> month a \<and> month a \<le> 12 \<and>
     1 \<le> day a \<and> day a \<le> days_in_month (year a) (month a)"

definition valid_time :: "time \<Rightarrow> bool" where
  "valid_time a \<longleftrightarrow>
     0 \<le> hour a \<and> hour a < 24 \<and> 0 \<le> minute a \<and> minute a < 60 \<and>
     0 \<le> second a \<and> second a < 60 \<and> 0 \<le> microsecond a \<and> microsecond a < 1000000"

definition toordinal :: "date \<Rightarrow> int" where
  "toordinal a = days_before_year (year a) + days_before_month (year a) (month a) + day a"

definition weekday :: "date \<Rightarrow> int" where
  "weekday a = (toordinal a + 6) mod 7"

text \<open>\<^verbatim>\<open>(a - b).days\<close> for two dates.\<close>

definition days_between :: "date \<Rightarrow> date \<Rightarrow> int" where
  "days_between a b = toordinal a - toordinal b"

section \<open>Classification of an entry\<close>

definition WEEKDAY_START :: time where
  "WEEKDAY_START = Time 8 0 0 0"

definition WEEKDAY_END :: time where
  "WEEKDAY_END = Time 17 0 0 0"

definition is_weekday :: "date \<Rightarrow> bool" where
  "is_weekday a \<longleftrightarrow> weekday a < 5"

definition is_normal_window :: "date \<Rightarrow> time option \<Rightarrow> bool" where
  "is_normal_window a t =
     (if \<not> is_weekday a then False
      else case t of
        None \<Rightarrow> True
      | Some x \<Rightarrow> WEEKDAY_START \<le> x \<and> x < WEEKDAY_END)"

definition base_hours :: "bool \<Rightarrow> bool \<Rightarrow> real" where
  "base_hours is_first is_last = (if is_first \<or> is_last then 4 else 2)"

section \<open>The schedule\<close>

text \<open>
  The dataclass \<^verbatim>\<open>Entry\<close> has the fields \<^verbatim>\<open>d\<close> and \<^verbatim>\<open>t\<close>; they are named
  \<open>entry_d\<close> and \<open>entry_t\<close> here, since a record field is a constant of the theory.
  The hour totals are Python floats. Every value the program computes is a sum of the
  constants 2.0 and 4.0, one per stored entry, and there are fewer than \<open>2 ^ 22\<close>
  distinct dates, so every partial sum is an integer below \<open>2 ^ 53\<close> and the float
  additions are exact: the totals are modelled as \<^typ>\<open>real\<close>.
\<close>

record Entry =
  entry_d :: date
  entry_t :: "time option"

record Schedule =
  start_date :: date
  end_date :: date
  entries :: "Entry list"

datatype py_error = ValueError string | KeyError | IndexError

text \<open>
  The dictionary \<^verbatim>\<open>by_day\<close> is an association list in insertion order, as a Python
  dictionary iterates: \<^verbatim>\<open>d not in by_day\<close> is \<open>map_of by_day d = None\<close>, and storing
  under a key that is absent appends the pair.
\<close>

fun by_day_loop ::
  "date \<Rightarrow> date \<Rightarrow> (date \<times> time option) list \<Rightarrow> (date \<times> time option) list
     \<Rightarrow> (date \<times> time option) list" where
  "by_day_loop st en by_day [] = by_day"
| "by_day_loop st en by_day ((d, t) # rest) =
     (if st \<le> d \<and> d \<le> en \<and> map_of by_day d = None
      then by_day_loop st en (by_day @ [(d, t)]) rest
      else by_day_loop st en by_day rest)"

text \<open>The comprehension \<^verbatim>\<open>[Entry(d, by_day[d]) for d in sorted(by_day)]\<close>.\<close>

fun build_entries :: "(date \<times> time option) list \<Rightarrow> date list \<Rightarrow> py_error + Entry list" where
  "build_entries by_day [] = Inr []"
| "build_entries by_day (d # ds) =
     (case map_of by_day d of
        None \<Rightarrow> Inl KeyError
      | Some t \<Rightarrow>
          (case build_entries by_day ds of
             Inl e \<Rightarrow> Inl e
           | Inr es \<Rightarrow> Inr (\<lparr>entry_d = d, entry_t = t\<rparr> # es)))"

definition Schedule_init ::
  "date \<Rightarrow> date \<Rightarrow> (date \<times> time option) list \<Rightarrow> py_error + Schedule" where
  "Schedule_init st en monitored_entries =
     (if en < st then Inl (ValueError ''end_date must be >= start_date'')
      else
        let by_day = by_day_loop st en [] monitored_entries in
        case build_entries by_day (sort (map fst by_day)) of
          Inl e \<Rightarrow> Inl e
        | Inr es \<Rightarrow> Inr \<lparr>start_date = st, end_date = en, entries = es\<rparr>)"

definition dry_time :: "Schedule \<Rightarrow> int" where
  "dry_time s = max (days_between (end_date s) (start_date s)) 0"

fun split_loop :: "date \<Rightarrow> date \<Rightarrow> Entry list \<Rightarrow> real \<times> real \<Rightarrow> real \<times> real" where
  "split_loop first_day last_day [] (normal, after) = (normal, after)"
| "split_loop first_day last_day (e # es) (normal, after) =
     (let hrs = base_hours (entry_d e = first_day) (entry_d e = last_day) in
      if is_normal_window (entry_d e) (entry_t e)
      then split_loop first_day last_day es (normal + hrs, after)
      else split_loop first_day last_day es (normal, after + hrs))"

definition split_hours :: "Schedule \<Rightarrow> real \<times> real" where
  "split_hours s =
     (if entries s = [] then (0, 0)
      else
        let first_day = entry_d (hd (entries s));
            last_day = entry_d (last (entries s))
        in split_loop first_day last_day (entries s) (0, 0))"

definition monitoring_hours :: "Schedule \<Rightarrow> real" where
  "monitoring_hours s = fst (split_hours s)"

definition after_hours :: "Schedule \<Rightarrow> real" where
  "after_hours s = snd (split_hours s)"

definition total_monitoring_hours :: "Schedule \<Rightarrow> real" where
  "total_monitoring_hours s = (case split_hours s of (n, a) \<Rightarrow> n + a)"

section \<open>Parsing an entry\<close>

text \<open>
  A Python \<^verbatim>\<open>str\<close> is a sequence of code points; here a string is a list of
  \<^typ>\<open>char\<close>, read as the code points 0 to 255. \<open>py_isspace\<close> lists the
  code points of that range that \<^verbatim>\<open>str.isspace\<close> accepts, which are the ones
  \<^verbatim>\<open>str.strip()\<close> and \<^verbatim>\<open>str.split()\<close> without arguments remove; the only
  decimal digits of the range are \<^verbatim>\<open>0\<close> to \<^verbatim>\<open>9\<close>.
\<close>

definition py_isspace :: "char \<Rightarrow> bool" where
  "py_isspace c =
     (let n = (of_char c :: nat)
      in (9 \<le> n \<and> n \<le> 13) \<or> (28 \<le> n \<and> n \<le> 32) \<or> n = 133 \<or> n = 160)"

definition str_strip :: "string \<Rightarrow> string" where
  "str_strip s = rev (dropWhile py_isspace (rev (dropWhile py_isspace s)))"

fun split_from :: "string \<Rightarrow> string \<Rightarrow> string list" where
  "split_from cur [] = (if cur = [] then [] else [cur])"
| "split_from cur (c # cs) =
     (if py_isspace c then (if cur = [] then split_from [] cs else cur # split_from [] cs)
      else split_from (cur @ [c]) cs)"

definition str_split :: "string \<Rightarrow> string list" where
  "str_split s = split_from [] s"

text \<open>
  \<^verbatim>\<open>datetime.strptime\<close> turns each directive into a regular expression, matches the
  text from its start (alternatives are tried in order, with backtracking), rejects text
  left over after the match, and converts the groups with \<^verbatim>\<open>int\<close>. For
  \<^verbatim>\<open>%m/%d/%Y\<close> and \<^verbatim>\<open>%H%M\<close> the groups are
  \<^verbatim>\<open>m: 1[0-2]|0[1-9]|[1-9]\<close>, \<^verbatim>\<open>d: 3[0-1]|[1-2]\d|0[1-9]|[1-9]| [1-9]\<close>,
  \<^verbatim>\<open>Y: \d\d\d\d\<close>, \<^verbatim>\<open>H: 2[0-3]|[0-1]\d|\d\<close> and \<^verbatim>\<open>M: [0-5]\d|\d\<close>.
  A matcher returns every way its expression matches a prefix of the text, in the order
  the backtracking search visits them, each with the text that remains; the head of the
  list for the whole expression is the match that \<^verbatim>\<open>re.match\<close> returns. Both
  failures (no match, a date that does not exist) raise \<^verbatim>\<open>ValueError\<close>, which
  \<^verbatim>\<open>parse_date_time\<close> catches: they are \<open>None\<close> here.
\<close>

definition digit_val :: "char \<Rightarrow> int" where
  "digit_val c = int (of_char c) - 48"

definition py_int :: "string \<Rightarrow> int" where
  "py_int txt = foldl (\<lambda>a c. 10 * a + digit_val c) 0 (str_strip txt)"

type_synonym matcher = "string \<Rightarrow> (string \<times> string) list"

definition cls1 :: "string \<Rightarrow> matcher" where
  "cls1 A s = (case s of c # r \<Rightarrow> if c \<in> set A then [([c], r)] else [] | _ \<Rightarrow> [])"

definition cls2 :: "string \<Rightarrow> string \<Rightarrow> matcher" where
  "cls2 A B s =
     (case s of
        c1 # c2 # r \<Rightarrow> if c1 \<in> set A \<and> c2 \<in> set B then [([c1, c2], r)] else []
      | _ \<Rightarrow> [])"

definition lit :: "char \<Rightarrow> string \<Rightarrow> string list" where
  "lit x s = (case s of c # r \<Rightarrow> if c = x then [r] else [] | _ \<Rightarrow> [])"

definition digits :: string where
  "digits = ''0123456789''"

definition nonzero :: string where
  "nonzero = ''123456789''"

definition re_m :: matcher where
  "re_m s = cls2 ''1'' ''012'' s @ cls2 ''0'' nonzero s @ cls1 nonzero s"

definition re_d :: matcher where
  "re_d s = cls2 ''3'' ''01'' s @ cls2 ''12'' digits s @ cls2 ''0'' nonzero s
      @ cls1 nonzero s @ cls2 '' '' nonzero s"

definition re_Y :: matcher where
  "re_Y s =
     [(y1 @ y2, r2). (y1, r1) \<leftarrow> cls2 digits digits s, (y2, r2) \<leftarrow> cls2 digits digits r1]"

definition re_H :: matcher where
  "re_H s = cls2 ''2'' ''0123'' s @ cls2 ''01'' digits s @ cls1 digits s"

definition re_M :: matcher where
  "re_M s = cls2 ''012345'' digits s @ cls1 digits s"

definition strptime_date :: "string \<Rightarrow> date option" where
  "strptime_date s =
     (case [(m, d, y, r5).
              (m, r1) \<leftarrow> re_m s, r2 \<leftarrow> lit (CHR ''/'') r1,
              (d, r3) \<leftarrow> re_d r2, r4 \<leftarrow> lit (CHR ''/'') r3,
              (y, r5) \<leftarrow> re_Y r4] of
        [] \<Rightarrow> None
      | (m, d, y, rest) # _ \<Rightarrow>
          if rest \<noteq> [] then None
          else
            let a = Date (py_int y) (py_int m) (py_int d)
            in if valid_date a then Some a else None)"

definition strptime_time :: "string \<Rightarrow> time option" where
  "strptime_time s =
     (case [(h, m, r2). (h, r1) \<leftarrow> re_H s, (m, r2) \<leftarrow> re_M r1] of
        [] \<Rightarrow> None
      | (h, m, rest) # _ \<Rightarrow>
          if rest \<noteq> [] then None else Some (Time (py_int h) (py_int m) 0 0))"

text \<open>
  \<^verbatim>\<open>parse_date_time\<close> returns the triple \<^verbatim>\<open>(d, t, err)\<close>. The read of
  \<^verbatim>\<open>parts[0]\<close> is the only place where it could raise.
\<close>

definition parse_date_time ::
  "string \<Rightarrow> py_error + (date option \<times> time option \<times> string option)" where
  "parse_date_time entry_str =
     (let s = str_strip entry_str in
      if s = [] then Inr (None, None, Some ''Empty entry'')
      else
        let parts = str_split s in
        case parts of
          [] \<Rightarrow> Inl IndexError
        | p0 # _ \<Rightarrow>
            (case strptime_date p0 of
               None \<Rightarrow>
                 Inr (None, None,
                   Some (''Invalid date '' @ [CHR 0x27] @ p0 @ [CHR 0x27] @ ''. Use MM/DD/YYYY.''))
             | Some d \<Rightarrow>
                 if length parts = 2 then
                   (case strptime_time (parts ! 1) of
                      None \<Rightarrow>
                        Inr (None, None,
                          Some (''Invalid time '' @ [CHR 0x27] @ parts ! 1 @ [CHR 0x27]
                            @ ''. Use HHMM (24h).''))
                    | Some t \<Rightarrow> Inr (Some d, Some t, None))
                 else if length parts > 2 then
                   Inr (None, None,
                     Some (''Bad entry '' @ [CHR 0x27] @ s @ [CHR 0x27] @ ''. Use ''
                       @ [CHR 0x27] @ ''MM/DD/YYYY [HHMM]'' @ [CHR 0x27] @ ''.''))
                 else Inr (Some d, None, None)))"

section \<open>Notions used to state the properties\<close>

text \<open>
  These are not functions of the program. \<open>days_in_year\<close> is the length of a
  calendar year; \<open>kept_days\<close> names the sorted key list
  that \<^verbatim>\<open>Schedule.__init__\<close> iterates over; \<open>position_weight n i\<close> is the base
  weight that the specification gives to the entry at position \<open>i\<close> of \<open>n\<close> stored
  entries; \<open>is_normal_entry\<close> is the classification of a stored entry.
\<close>

definition days_in_year :: "int \<Rightarrow> int" where
  "days_in_year y = (if is_leap y then 366 else 365)"

definition kept_days :: "date \<Rightarrow> date \<Rightarrow> (date \<times> time option) list \<Rightarrow> date list" where
  "kept_days st en xs = sort (map fst (by_day_loop st en [] xs))"

definition position_weight :: "nat \<Rightarrow> nat \<Rightarrow> real" where
  "position_weight n i = (if i = 0 \<or> Suc i = n then 4 else 2)"

definition is_normal_entry :: "Entry \<Rightarrow> bool" where
  "is_normal_entry e = is_normal_window (entry_d e) (entry_t e)"


section \<open>The calendar: later dates have later day numbers\<close>

lemma div_pred:
  fixes y n :: int
  assumes n: "0 < n"
  shows "(y - 1) div n = y div n - (if y mod n = 0 then 1 else 0)"
proof (cases "y mod n = 0")
  case True
  have "y - 1 = n * (y div n - 1) + (n - 1)"
    using mult_div_mod_eq [of n y] True by (simp add: algebra_simps)
  then have "(y - 1) div n = y div n - 1"
    using n by (intro int_div_pos_eq [where r = "n - 1"]) simp_all
  with True show ?thesis by simp
next
  case False
  have r: "0 \<le> y mod n" "y mod n < n" using n by simp_all
  have "y - 1 = n * (y div n) + (y mod n - 1)"
    using mult_div_mod_eq [of n y] by (simp add: algebra_simps)
  then have "(y - 1) div n = y div n"
    using n r False by (intro int_div_pos_eq [where r = "y mod n - 1"]) simp_all
  with False show ?thesis by simp
qed

lemma leap_mods:
  fixes y :: int
  shows "y mod 400 = 0 \<Longrightarrow> y mod 100 = 0" and "y mod 100 = 0 \<Longrightarrow> y mod 4 = 0"
proof -
  have "(100::int) dvd 400" "(4::int) dvd 100" by simp_all
  then show "y mod 400 = 0 \<Longrightarrow> y mod 100 = 0" "y mod 100 = 0 \<Longrightarrow> y mod 4 = 0"
    by (auto simp: mod_eq_0_iff_dvd elim: dvd_trans)
qed

lemma year_step_arith:
  fixes y q4 q100 q400 :: int
  assumes "l400 \<Longrightarrow> l100" and "l100 \<Longrightarrow> l4"
  shows "y * 365 + q4 - q100 + q400 =
     (y - 1) * 365 + (q4 - (if l4 then 1 else 0)) - (q100 - (if l100 then 1 else 0))
       + (q400 - (if l400 then 1 else 0))
       + (if l4 \<and> (\<not> l100 \<or> l400) then 366 else 365)"
  using assms by (cases l4; cases l100; cases l400) (simp_all add: left_diff_distrib)

lemma days_before_year_Suc:
  "days_before_year (y + 1) = days_before_year y + days_in_year y"
proof -
  have d4: "(y - 1) div 4 = y div 4 - (if y mod 4 = 0 then 1 else 0)"
    and d100: "(y - 1) div 100 = y div 100 - (if y mod 100 = 0 then 1 else 0)"
    and d400: "(y - 1) div 400 = y div 400 - (if y mod 400 = 0 then 1 else 0)"
    by (rule div_pred, simp)+
  have "days_before_year (y + 1) = y * 365 + y div 4 - y div 100 + y div 400"
    by (simp add: days_before_year_def)
  also have "\<dots> = (y - 1) * 365 + (y - 1) div 4 - (y - 1) div 100 + (y - 1) div 400
       + (if y mod 4 = 0 \<and> (\<not> y mod 100 = 0 \<or> y mod 400 = 0) then 366 else 365)"
    unfolding d4 d100 d400 by (rule year_step_arith) (erule leap_mods(1), erule leap_mods(2))
  also have "\<dots> = days_before_year y + days_in_year y"
    by (simp only: days_before_year_def days_in_year_def is_leap_def Let_def)
  finally show ?thesis .
qed

lemma days_in_year_pos: "0 < days_in_year y"
  by (simp add: days_in_year_def)

lemma days_before_year_mono_aux:
  "days_before_year y \<le> days_before_year (y + int k)"
proof (induction k)
  case 0
  then show ?case by simp
next
  case (Suc k)
  have "days_before_year (y + int (Suc k)) = days_before_year ((y + int k) + 1)"
    by (simp add: algebra_simps)
  also have "\<dots> = days_before_year (y + int k) + days_in_year (y + int k)"
    by (rule days_before_year_Suc)
  finally show ?case using Suc.IH days_in_year_pos [of "y + int k"] by linarith
qed

lemma days_before_year_mono:
  assumes "y \<le> y'"
  shows "days_before_year y \<le> days_before_year y'"
proof -
  from assms have "y' = y + int (nat (y' - y))" by simp
  then show ?thesis using days_before_year_mono_aux [of y "nat (y' - y)"] by simp
qed

lemma month_cases:
  assumes "1 \<le> m" "m \<le> 12"
  shows "m \<in> {1, 2, 3, 4, 5, 6, 7, 8, 9, 10, 11, 12::int}"
  using assms by (simp only: insert_iff empty_iff) arith

lemma days_before_month_step:
  assumes "1 \<le> m" "m < 12"
  shows "days_before_month y (m + 1) = days_before_month y m + days_in_month y m"
proof -
  from assms have "m \<in> {1, 2, 3, 4, 5, 6, 7, 8, 9, 10, 11::int}"
    by (simp only: insert_iff empty_iff) arith
  then show ?thesis
    by (elim insertE emptyE) (simp_all add: days_before_month_def days_in_month_def)
qed

lemma days_in_month_pos: "0 < days_in_month y m"
  by (simp add: days_in_month_def)

lemma days_before_month_mono_aux:
  "1 \<le> m \<Longrightarrow> m + int k \<le> 12 \<Longrightarrow> days_before_month y m \<le> days_before_month y (m + int k)"
proof (induction k)
  case 0
  then show ?case by simp
next
  case (Suc k)
  have "days_before_month y (m + int (Suc k)) = days_before_month y ((m + int k) + 1)"
    by (simp add: algebra_simps)
  also have "\<dots> = days_before_month y (m + int k) + days_in_month y (m + int k)"
    using Suc.prems by (intro days_before_month_step) simp_all
  finally show ?case
    using Suc.IH Suc.prems days_in_month_pos [of y "m + int k"] by simp
qed

lemma days_before_month_mono:
  assumes "1 \<le> m" "m \<le> m'" "m' \<le> 12"
  shows "days_before_month y m \<le> days_before_month y m'"
proof -
  from assms have "m' = m + int (nat (m' - m))" by simp
  then show ?thesis using days_before_month_mono_aux [of m "nat (m' - m)" y] assms by simp
qed

lemma days_before_month_bounds:
  assumes "1 \<le> m" "m \<le> 12"
  shows "0 \<le> days_before_month y m"
    and "days_before_month y m + days_in_month y m \<le> days_in_year y"
proof -
  from month_cases [OF assms]
  show "0 \<le> days_before_month y m"
    by (elim insertE emptyE) (simp_all add: days_before_month_def)
  from month_cases [OF assms]
  show "days_before_month y m + days_in_month y m \<le> days_in_year y"
    by (elim insertE emptyE)
      (simp_all add: days_before_month_def days_in_month_def days_in_year_def)
qed

lemma toordinal_mono:
  assumes a: "valid_date a" and b: "valid_date b" and le: "a \<le> b"
  shows "toordinal a \<le> toordinal b"
proof -
  from le have "year a < year b \<or> year a = year b \<and> month a < month b
      \<or> year a = year b \<and> month a = month b \<and> day a \<le> day b"
    by (simp add: less_eq_date_def date_key_def) arith
  then consider
      (year) "year a < year b"
    | (month) "year a = year b" "month a < month b"
    | (day) "year a = year b" "month a = month b" "day a \<le> day b"
    by blast
  then show ?thesis
  proof cases
    case year
    have "toordinal a \<le> days_before_year (year a) + days_in_year (year a)"
      using a days_before_month_bounds(2) [of "month a" "year a"]
      by (simp add: toordinal_def valid_date_def)
    also have "\<dots> = days_before_year (year a + 1)"
      by (simp add: days_before_year_Suc)
    also have "\<dots> \<le> days_before_year (year b)"
      using year by (intro days_before_year_mono) simp
    also have "\<dots> \<le> toordinal b"
      using b days_before_month_bounds(1) [of "month b" "year b"]
      by (simp add: toordinal_def valid_date_def)
    finally show ?thesis .
  next
    case month
    have "days_before_month (year a) (month a) + day a
        \<le> days_before_month (year a) (month a) + days_in_month (year a) (month a)"
      using a by (simp add: valid_date_def)
    also have "\<dots> = days_before_month (year a) (month a + 1)"
      using a b month by (simp add: days_before_month_step valid_date_def)
    also have "\<dots> \<le> days_before_month (year a) (month b)"
      using a b month by (intro days_before_month_mono) (simp_all add: valid_date_def)
    finally show ?thesis
      using b month by (simp add: toordinal_def valid_date_def)
  next
    case day
    then show ?thesis by (simp add: toordinal_def)
  qed
qed

lemma weekday_range: "0 \<le> weekday a \<and> weekday a < 7"
  by (simp add: weekday_def)

lemma normal_time_iff:
  assumes "valid_time x"
  shows "WEEKDAY_START \<le> x \<and> x < WEEKDAY_END \<longleftrightarrow> 8 \<le> hour x \<and> hour x < 17"
  using assms
  by (auto simp: WEEKDAY_START_def WEEKDAY_END_def less_eq_time_def less_time_def
      time_key_def valid_time_def)

section \<open>Construction of a schedule\<close>

lemma map_of_by_day_loop:
  "map_of (by_day_loop st en acc xs) k =
     (case map_of acc k of
        Some v \<Rightarrow> Some v
      | None \<Rightarrow> if st \<le> k \<and> k \<le> en then map_of xs k else None)"
proof (induction xs arbitrary: acc)
  case Nil
  then show ?case by (simp split: option.splits)
next
  case (Cons p xs)
  obtain d t where p: "p = (d, t)" by (cases p)
  show ?case
    unfolding p by (auto simp: Cons.IH map_add_def split: option.splits)
qed

lemma distinct_by_day_loop:
  "distinct (map fst acc) \<Longrightarrow> distinct (map fst (by_day_loop st en acc xs))"
proof (induction xs arbitrary: acc)
  case Nil
  then show ?case by simp
next
  case (Cons p xs)
  obtain d t where p: "p = (d, t)" by (cases p)
  show ?case
  proof (cases "st \<le> d \<and> d \<le> en \<and> map_of acc d = None")
    case True
    then have "d \<notin> fst ` set acc" by (simp add: map_of_eq_None_iff)
    with Cons.prems have "distinct (map fst (acc @ [(d, t)]))" by simp
    from Cons.IH [OF this] True show ?thesis unfolding p by simp
  next
    case False
    with Cons.IH [OF Cons.prems] show ?thesis unfolding p by auto
  qed
qed

lemma keys_by_day_loop:
  "set (map fst (by_day_loop st en [] xs)) = {k \<in> fst ` set xs. st \<le> k \<and> k \<le> en}"
proof -
  have "set (map fst (by_day_loop st en [] xs)) = dom (map_of (by_day_loop st en [] xs))"
    by (simp add: dom_map_of_conv_image_fst)
  also have "\<dots> = {k. (st \<le> k \<and> k \<le> en) \<and> map_of xs k \<noteq> None}"
    by (auto simp: dom_def map_of_by_day_loop)
  also have "\<dots> = {k \<in> fst ` set xs. st \<le> k \<and> k \<le> en}"
    by (auto simp: map_of_eq_None_iff)
  finally show ?thesis .
qed

lemma build_entries_total:
  "\<forall>k\<in>set ks. map_of bd k \<noteq> None \<Longrightarrow>
   build_entries bd ks = Inr (map (\<lambda>k. \<lparr>entry_d = k, entry_t = the (map_of bd k)\<rparr>) ks)"
  by (induction ks) auto

lemma kept_days_props:
  "sorted (kept_days st en xs)" "distinct (kept_days st en xs)"
  "set (kept_days st en xs) = {k \<in> fst ` set xs. st \<le> k \<and> k \<le> en}"
  using keys_by_day_loop [of st en xs] distinct_by_day_loop [of "[]" st en xs]
  by (simp_all add: kept_days_def)

lemma Schedule_init_Inr:
  assumes "\<not> en < st"
  shows "Schedule_init st en xs =
    Inr \<lparr>start_date = st, end_date = en,
         entries = map (\<lambda>k. \<lparr>entry_d = k, entry_t = the (map_of xs k)\<rparr>) (kept_days st en xs)\<rparr>"
proof -
  let ?bd = "by_day_loop st en [] xs"
  have in_keys: "\<forall>k\<in>set (kept_days st en xs). map_of ?bd k \<noteq> None"
    unfolding kept_days_def by (simp add: map_of_eq_None_iff)
  have "\<forall>k\<in>set (kept_days st en xs). map_of ?bd k = map_of xs k"
    using kept_days_props(3) [of st en xs] by (simp add: map_of_by_day_loop)
  then have "map (\<lambda>k. \<lparr>entry_d = k, entry_t = the (map_of ?bd k)\<rparr>) (kept_days st en xs)
     = map (\<lambda>k. \<lparr>entry_d = k, entry_t = the (map_of xs k)\<rparr>) (kept_days st en xs)"
    by simp
  with build_entries_total [OF in_keys] assms show ?thesis
    by (simp add: Schedule_init_def kept_days_def Let_def)
qed

lemma Schedule_init_Inl:
  "en < st \<Longrightarrow> Schedule_init st en xs = Inl (ValueError ''end_date must be >= start_date'')"
  by (simp add: Schedule_init_def)

lemma Schedule_init_InrD:
  assumes "Schedule_init st en xs = Inr s"
  shows "st \<le> en" "start_date s = st" "end_date s = en"
    "entries s = map (\<lambda>k. \<lparr>entry_d = k, entry_t = the (map_of xs k)\<rparr>) (kept_days st en xs)"
    "map entry_d (entries s) = kept_days st en xs"
proof -
  show le: "st \<le> en" using assms Schedule_init_Inl [of en st xs] by (cases "en < st") auto
  then have "\<not> en < st" by simp
  from Schedule_init_Inr [OF this, of xs] assms
  have s: "s = \<lparr>start_date = st, end_date = en,
         entries = map (\<lambda>k. \<lparr>entry_d = k, entry_t = the (map_of xs k)\<rparr>) (kept_days st en xs)\<rparr>"
    by simp
  show "start_date s = st" "end_date s = en" 
    "entries s = map (\<lambda>k. \<lparr>entry_d = k, entry_t = the (map_of xs k)\<rparr>) (kept_days st en xs)"
    by (simp_all add: s)
  then show "map entry_d (entries s) = kept_days st en xs"
    by (simp add: comp_def)
qed

section \<open>The hour totals\<close>

lemma split_loop_sums:
  "split_loop f l es (n, a) =
     (n + (\<Sum>e\<leftarrow>es. if is_normal_entry e then base_hours (entry_d e = f) (entry_d e = l) else 0),
      a + (\<Sum>e\<leftarrow>es. if is_normal_entry e then 0 else base_hours (entry_d e = f) (entry_d e = l)))"
  by (induction es arbitrary: n a) (simp_all add: is_normal_entry_def Let_def)

lemma sum_list_by_position:
  "(\<Sum>e\<leftarrow>es. g e) = (\<Sum>i\<leftarrow>[0..<length es]. g (es ! i))"
proof -
  have "map g es = map (\<lambda>i. g (es ! i)) [0..<length es]"
    by (rule nth_equalityI) simp_all
  then show ?thesis by simp
qed

lemma base_hours_position:
  assumes dist: "distinct (map entry_d es)" and i: "i < length es"
  shows "base_hours (entry_d (es ! i) = entry_d (hd es)) (entry_d (es ! i) = entry_d (last es))
           = position_weight (length es) i"
proof -
  from i have ne: "es \<noteq> []" by auto
  have "entry_d (es ! i) = entry_d (es ! 0) \<longleftrightarrow> i = 0"
    using nth_eq_iff_index_eq [OF dist, of i 0] i ne by simp
  then have "entry_d (es ! i) = entry_d (hd es) \<longleftrightarrow> i = 0"
    using ne by (simp add: hd_conv_nth)
  moreover have "entry_d (es ! i) = entry_d (es ! (length es - 1)) \<longleftrightarrow> i = length es - 1"
    using nth_eq_iff_index_eq [OF dist, of i "length es - 1"] i ne by simp
  then have "entry_d (es ! i) = entry_d (last es) \<longleftrightarrow> Suc i = length es"
    using ne i by (auto simp: last_conv_nth)
  ultimately show ?thesis by (simp add: base_hours_def position_weight_def)
qed

lemma split_hours_by_position:
  assumes dist: "distinct (map entry_d (entries s))"
  shows "split_hours s =
    ((\<Sum>i\<leftarrow>[0..<length (entries s)].
        if is_normal_entry (entries s ! i) then position_weight (length (entries s)) i else 0),
     (\<Sum>i\<leftarrow>[0..<length (entries s)].
        if is_normal_entry (entries s ! i) then 0 else position_weight (length (entries s)) i))"
proof (cases "entries s = []")
  case True
  then show ?thesis by (simp add: split_hours_def)
next
  case False
  let ?es = "entries s"
  let ?w = "\<lambda>e. base_hours (entry_d e = entry_d (hd ?es)) (entry_d e = entry_d (last ?es))"
  have w: "\<And>i. i \<in> set [0..<length ?es] \<Longrightarrow> ?w (?es ! i) = position_weight (length ?es) i"
    using base_hours_position [OF dist] by simp
  have n: "(\<Sum>e\<leftarrow>?es. if is_normal_entry e then ?w e else 0) =
        (\<Sum>i\<leftarrow>[0..<length ?es]. if is_normal_entry (?es ! i) then position_weight (length ?es) i else 0)"
    unfolding sum_list_by_position [of "\<lambda>e. if is_normal_entry e then ?w e else 0"]
    by (rule arg_cong [where f = sum_list], rule map_cong) (simp_all add: w)
  have a: "(\<Sum>e\<leftarrow>?es. if is_normal_entry e then 0 else ?w e) =
        (\<Sum>i\<leftarrow>[0..<length ?es]. if is_normal_entry (?es ! i) then 0 else position_weight (length ?es) i)"
    unfolding sum_list_by_position [of "\<lambda>e. if is_normal_entry e then 0 else ?w e"]
    by (rule arg_cong [where f = sum_list], rule map_cong) (simp_all add: w)
  from False show ?thesis
    by (simp add: split_hours_def Let_def split_loop_sums n a)
qed

lemma sum_list_split_cases:
  fixes w :: "nat \<Rightarrow> real"
  shows "(\<Sum>i\<leftarrow>is. if P i then w i else 0) + (\<Sum>i\<leftarrow>is. if P i then 0 else w i) = (\<Sum>i\<leftarrow>is. w i)"
  by (induction "is") simp_all

lemma sum_position_weight:
  "(\<Sum>i\<leftarrow>[0..<n]. position_weight n i) =
     (if n = 0 then 0 else if n = 1 then 4 else 2 * real n + 4)"
proof -
  consider "n = 0" | "n = 1" | "2 \<le> n" by linarith
  then show ?thesis
  proof cases
    case 1
    then show ?thesis by simp
  next
    case 2
    then show ?thesis by (simp add: position_weight_def)
  next
    case 3
    have pw: "position_weight n i = 2 + (if i = 0 then 2 else 0) + (if i = n - 1 then 2 else 0)"
      for i using 3 by (auto simp: position_weight_def)
    have "(\<Sum>i\<leftarrow>[0..<n]. position_weight n i) = (\<Sum>i = 0..<n. position_weight n i)"
      by (simp add: interv_sum_list_conv_sum_set_nat)
    also have "\<dots> = (\<Sum>i = 0..<n. 2) + (\<Sum>i = 0..<n. if i = 0 then 2 else 0)
         + (\<Sum>i = 0..<n. if i = n - 1 then 2 else (0::real))"
      by (simp only: pw sum.distrib)
    also have "\<dots> = 2 * real n + 2 + 2"
      using 3 by (simp add: sum.delta)
    finally show ?thesis using 3 by simp
  qed
qed

lemma position_weight_nonneg: "0 \<le> position_weight n i"
  by (simp add: position_weight_def)

lemma sum_list_nonneg_if:
  fixes w :: "nat \<Rightarrow> real"
  assumes "\<And>i. 0 \<le> w i"
  shows "0 \<le> (\<Sum>i\<leftarrow>is. if P i then w i else 0)"
  by (rule sum_list_nonneg) (auto simp: assms)

section \<open>The claims about the schedule\<close>

text \<open>The definitions that evaluate a concrete schedule.\<close>

lemmas calendar_defs =
  weekday_def toordinal_def days_before_year_def days_before_month_def is_leap_def
  days_between_def days_in_month_def valid_date_def

lemmas hours_defs =
  monitoring_hours_def after_hours_def total_monitoring_hours_def split_hours_def
  base_hours_def is_normal_window_def is_weekday_def WEEKDAY_START_def WEEKDAY_END_def
  less_eq_time_def less_time_def time_key_def dry_time_def

lemmas order_defs = less_eq_date_def less_date_def date_key_def

lemma spec_example_init:
  "Schedule_init (Date 2025 9 18) (Date 2025 9 20)
     [(Date 2025 9 18, Some (Time 7 0 0 0)), (Date 2025 9 19, Some (Time 18 0 0 0)),
      (Date 2025 9 20, None)] =
   Inr \<lparr>start_date = Date 2025 9 18, end_date = Date 2025 9 20,
        entries = [\<lparr>entry_d = Date 2025 9 18, entry_t = Some (Time 7 0 0 0)\<rparr>,
                   \<lparr>entry_d = Date 2025 9 19, entry_t = Some (Time 18 0 0 0)\<rparr>,
                   \<lparr>entry_d = Date 2025 9 20, entry_t = None\<rparr>]\<rparr>"
  by (simp add: Schedule_init_def order_defs)

text \<open>
  Claim C1, as stated: for the range 09/18/2025 to 09/20/2025 and the entries
  (09/18/2025, 07:00), (09/19/2025, 18:00), (09/20/2025, no time) the totals would be
  \<open>monitoring_hours = 4\<close> and \<open>after_hours = 6\<close>, the last entry being normal. The
  20th of September 2025 is a Saturday, so the program classifies the last entry as
  after-hours and neither total has the stated value.
\<close>

theorem C1_spec_example_counterexample:
  "Schedule_init (Date 2025 9 18) (Date 2025 9 20)
     [(Date 2025 9 18, Some (Time 7 0 0 0)), (Date 2025 9 19, Some (Time 18 0 0 0)),
      (Date 2025 9 20, None)] =
   Inr \<lparr>start_date = Date 2025 9 18, end_date = Date 2025 9 20,
        entries = [\<lparr>entry_d = Date 2025 9 18, entry_t = Some (Time 7 0 0 0)\<rparr>,
                   \<lparr>entry_d = Date 2025 9 19, entry_t = Some (Time 18 0 0 0)\<rparr>,
                   \<lparr>entry_d = Date 2025 9 20, entry_t = None\<rparr>]\<rparr>
   \<and> monitoring_hours \<lparr>start_date = Date 2025 9 18, end_date = Date 2025 9 20,
        entries = [\<lparr>entry_d = Date 2025 9 18, entry_t = Some (Time 7 0 0 0)\<rparr>,
                   \<lparr>entry_d = Date 2025 9 19, entry_t = Some (Time 18 0 0 0)\<rparr>,
                   \<lparr>entry_d = Date 2025 9 20, entry_t = None\<rparr>]\<rparr> \<noteq> 4
   \<and> after_hours \<lparr>start_date = Date 2025 9 18, end_date = Date 2025 9 20,
        entries = [\<lparr>entry_d = Date 2025 9 18, entry_t = Some (Time 7 0 0 0)\<rparr>,
                   \<lparr>entry_d = Date 2025 9 19, entry_t = Some (Time 18 0 0 0)\<rparr>,
                   \<lparr>entry_d = Date 2025 9 20, entry_t = None\<rparr>]\<rparr> \<noteq> 6
   \<and> \<not> is_normal_window (Date 2025 9 20) None"
  by (simp add: Schedule_init_def order_defs hours_defs calendar_defs)

text \<open>
  Claim C1, amended: for that input the schedule stores the three entries, all three are
  after-hours (the last one because 09/20/2025 is a Saturday), and
  \<open>monitoring_hours = 0\<close>, \<open>after_hours = 10\<close>, \<open>total_monitoring_hours = 10\<close>,
  \<open>dry_time = 2\<close>.
\<close>

theorem C1_spec_example_amended:
  "Schedule_init (Date 2025 9 18) (Date 2025 9 20)
     [(Date 2025 9 18, Some (Time 7 0 0 0)), (Date 2025 9 19, Some (Time 18 0 0 0)),
      (Date 2025 9 20, None)] =
   Inr \<lparr>start_date = Date 2025 9 18, end_date = Date 2025 9 20,
        entries = [\<lparr>entry_d = Date 2025 9 18, entry_t = Some (Time 7 0 0 0)\<rparr>,
                   \<lparr>entry_d = Date 2025 9 19, entry_t = Some (Time 18 0 0 0)\<rparr>,
                   \<lparr>entry_d = Date 2025 9 20, entry_t = None\<rparr>]\<rparr>
   \<and> monitoring_hours \<lparr>start_date = Date 2025 9 18, end_date = Date 2025 9 20,
        entries = [\<lparr>entry_d = Date 2025 9 18, entry_t = Some (Time 7 0 0 0)\<rparr>,
                   \<lparr>entry_d = Date 2025 9 19, entry_t = Some (Time 18 0 0 0)\<rparr>,
                   \<lparr>entry_d = Date 2025 9 20, entry_t = None\<rparr>]\<rparr> = 0
   \<and> after_hours \<lparr>start_date = Date 2025 9 18, end_date = Date 2025 9 20,
        entries = [\<lparr>entry_d = Date 2025 9 18, entry_t = Some (Time 7 0 0 0)\<rparr>,
                   \<lparr>entry_d = Date 2025 9 19, entry_t = Some (Time 18 0 0 0)\<rparr>,
                   \<lparr>entry_d = Date 2025 9 20, entry_t = None\<rparr>]\<rparr> = 10
   \<and> total_monitoring_hours \<lparr>start_date = Date 2025 9 18, end_date = Date 2025 9 20,
        entries = [\<lparr>entry_d = Date 2025 9 18, entry_t = Some (Time 7 0 0 0)\<rparr>,
                   \<lparr>entry_d = Date 2025 9 19, entry_t = Some (Time 18 0 0 0)\<rparr>,
                   \<lparr>entry_d = Date 2025 9 20, entry_t = None\<rparr>]\<rparr> = 10
   \<and> dry_time \<lparr>start_date = Date 2025 9 18, end_date = Date 2025 9 20,
        entries = [\<lparr>entry_d = Date 2025 9 18, entry_t = Some (Time 7 0 0 0)\<rparr>,
                   \<lparr>entry_d = Date 2025 9 19, entry_t = Some (Time 18 0 0 0)\<rparr>,
                   \<lparr>entry_d = Date 2025 9 20, entry_t = None\<rparr>]\<rparr> = 2
   \<and> weekday (Date 2025 9 20) = 5
   \<and> \<not> is_normal_window (Date 2025 9 18) (Some (Time 7 0 0 0))
   \<and> \<not> is_normal_window (Date 2025 9 19) (Some (Time 18 0 0 0))
   \<and> \<not> is_normal_window (Date 2025 9 20) None"
  by (simp add: Schedule_init_def order_defs hours_defs calendar_defs)

text \<open>
  Claim C2. An entry on a Saturday or Sunday (\<open>weekday\<close> 5 or 6) is after-hours
  whatever its time. On a weekday an entry without a time is normal, and an entry with
  a time \<open>x\<close> is normal exactly when \<open>08:00 \<le> x < 17:00\<close>, which for a time of day
  means that its hour is between 8 and 16: 08:00 is normal, 17:00 and 07:59 are
  after-hours. Every date is a weekday, a Saturday or a Sunday.
\<close>

theorem C2_classification:
  "(weekday a = 5 \<or> weekday a = 6 \<longrightarrow> \<not> is_normal_window a t)
   \<and> (weekday a < 5 \<longrightarrow> is_normal_window a None)
   \<and> (weekday a < 5 \<longrightarrow>
        is_normal_window a (Some x) = (Time 8 0 0 0 \<le> x \<and> x < Time 17 0 0 0))
   \<and> (weekday a < 5 \<and> valid_time x \<longrightarrow>
        is_normal_window a (Some x) = (8 \<le> hour x \<and> hour x < 17))
   \<and> (weekday a < 5 \<longrightarrow>
        is_normal_window a (Some (Time 8 0 0 0))
        \<and> \<not> is_normal_window a (Some (Time 17 0 0 0))
        \<and> \<not> is_normal_window a (Some (Time 7 59 0 0)))
   \<and> (weekday a < 5 \<or> weekday a = 5 \<or> weekday a = 6)"
proof -
  have range: "0 \<le> weekday a \<and> weekday a < 7" by (rule weekday_range)
  have "valid_time x \<Longrightarrow> (WEEKDAY_START \<le> x \<and> x < WEEKDAY_END) = (8 \<le> hour x \<and> hour x < 17)"
    by (rule normal_time_iff)
  then show ?thesis
    using range
    by (auto simp: is_normal_window_def is_weekday_def WEEKDAY_START_def WEEKDAY_END_def
        less_eq_time_def less_time_def time_key_def)
qed

theorem C2_classification_witness:
  "weekday (Date 2025 9 20) = 5 \<and> \<not> is_normal_window (Date 2025 9 20) (Some (Time 9 0 0 0))
   \<and> weekday (Date 2025 9 18) < 5 \<and> valid_time (Time 16 59 0 0)
   \<and> is_normal_window (Date 2025 9 18) None
   \<and> is_normal_window (Date 2025 9 18) (Some (Time 16 59 0 0))
   \<and> is_normal_window (Date 2025 9 18) (Some (Time 8 0 0 0))
   \<and> \<not> is_normal_window (Date 2025 9 18) (Some (Time 17 0 0 0))
   \<and> \<not> is_normal_window (Date 2025 9 18) (Some (Time 7 59 0 0))"
proof -
  have sat: "weekday (Date 2025 9 20) = 5" and thu: "weekday (Date 2025 9 18) < 5"
    and vt: "valid_time (Time 16 59 0 0)"
    by (simp_all add: calendar_defs valid_time_def)
  show ?thesis
    using sat thu vt
      C2_classification [of "Date 2025 9 20" "Some (Time 9 0 0 0)" "Time 16 59 0 0"]
      C2_classification [of "Date 2025 9 18" None "Time 16 59 0 0"]
    by (simp add: less_eq_time_def less_time_def time_key_def)
qed

lemma Schedule_init_distinct:
  assumes "Schedule_init st en xs = Inr s"
  shows "distinct (map entry_d (entries s))"
  using Schedule_init_InrD(5) [OF assms] kept_days_props(2) [of st en xs] by simp

lemma map_of_first_occurrence:
  assumes "xs = pre @ (d, t) # post" and "d \<notin> fst ` set pre"
  shows "map_of xs d = Some t"
proof -
  from assms(2) have "map_of pre d = None" by (simp add: map_of_eq_None_iff)
  with assms(1) show ?thesis by (simp add: map_add_def)
qed

lemma filter_eq_singleton:
  "distinct ks \<Longrightarrow> d \<in> set ks \<Longrightarrow> filter (\<lambda>k. k = d) ks = [d]"
proof (induction ks)
  case Nil
  then show ?case by simp
next
  case (Cons k ks)
  show ?case
  proof (cases "k = d")
    case True
    with Cons.prems have "filter (\<lambda>k. k = d) ks = []" by (auto simp: filter_empty_conv)
    with True show ?thesis by simp
  next
    case False
    with Cons show ?thesis by simp
  qed
qed

lemma by_day_loop_filter:
  "by_day_loop st en acc (filter (\<lambda>p. st \<le> fst p \<and> fst p \<le> en) xs) = by_day_loop st en acc xs"
proof (induction xs arbitrary: acc)
  case Nil
  then show ?case by simp
next
  case (Cons p xs)
  obtain d t where p: "p = (d, t)" by (cases p)
  show ?case unfolding p by (simp add: Cons.IH)
qed

lemma Schedule_init_filter:
  "Schedule_init st en (filter (\<lambda>p. st \<le> fst p \<and> fst p \<le> en) xs) = Schedule_init st en xs"
  by (simp add: Schedule_init_def by_day_loop_filter)

lemma Schedule_init_total_hours:
  assumes "Schedule_init st en xs = Inr s"
  shows "total_monitoring_hours s =
    (\<Sum>i\<leftarrow>[0..<length (entries s)]. position_weight (length (entries s)) i)"
  unfolding total_monitoring_hours_def
    split_hours_by_position [OF Schedule_init_distinct [OF assms]]
  by (simp add: sum_list_split_cases)

text \<open>
  Claim C3. In a constructed schedule with at least one stored entry, the weight that
  \<^verbatim>\<open>_split_hours\<close> computes for the entry at position \<open>i\<close> is 4 for the first and
  the last position and 2 for every other one; \<open>monitoring_hours\<close> adds these weights
  over the normal entries and \<open>after_hours\<close> over the others. A single stored entry
  weighs 4 in total, not 8.
\<close>

theorem C3_first_and_last_weigh_four:
  assumes "Schedule_init st en xs = Inr s" and "entries s \<noteq> []"
  shows
    "(\<forall>i<length (entries s).
        base_hours (entry_d (entries s ! i) = entry_d (hd (entries s)))
                   (entry_d (entries s ! i) = entry_d (last (entries s)))
          = (if i = 0 \<or> i = length (entries s) - 1 then 4 else 2))
     \<and> monitoring_hours s =
         (\<Sum>i\<leftarrow>[0..<length (entries s)].
            if is_normal_window (entry_d (entries s ! i)) (entry_t (entries s ! i))
            then (if i = 0 \<or> i = length (entries s) - 1 then 4 else 2) else 0)
     \<and> after_hours s =
         (\<Sum>i\<leftarrow>[0..<length (entries s)].
            if is_normal_window (entry_d (entries s ! i)) (entry_t (entries s ! i))
            then 0 else (if i = 0 \<or> i = length (entries s) - 1 then 4 else 2))
     \<and> (length (entries s) = 1 \<longrightarrow> total_monitoring_hours s = 4)"
proof -
  let ?n = "length (entries s)"
  have dist: "distinct (map entry_d (entries s))"
    using assms(1) by (rule Schedule_init_distinct)
  have pw: "position_weight ?n i = (if i = 0 \<or> i = ?n - 1 then 4 else 2)" if "i < ?n" for i
    using that by (auto simp: position_weight_def)
  have pw_set: "position_weight ?n i = (if i = 0 \<or> i = ?n - 1 then 4 else 2)"
    if "i \<in> set [0..<?n]" for i
    using that pw by simp
  have weights: "\<forall>i<?n.
        base_hours (entry_d (entries s ! i) = entry_d (hd (entries s)))
                   (entry_d (entries s ! i) = entry_d (last (entries s)))
          = (if i = 0 \<or> i = ?n - 1 then 4 else 2)"
    using base_hours_position [OF dist] pw by simp
  have normal: "monitoring_hours s =
         (\<Sum>i\<leftarrow>[0..<?n].
            if is_normal_window (entry_d (entries s ! i)) (entry_t (entries s ! i))
            then (if i = 0 \<or> i = ?n - 1 then 4 else 2) else 0)"
    unfolding monitoring_hours_def split_hours_by_position [OF dist] fst_conv is_normal_entry_def
    by (rule arg_cong [where f = sum_list], rule map_cong) (simp_all only: pw_set)
  have after: "after_hours s =
         (\<Sum>i\<leftarrow>[0..<?n].
            if is_normal_window (entry_d (entries s ! i)) (entry_t (entries s ! i))
            then 0 else (if i = 0 \<or> i = ?n - 1 then 4 else 2))"
    unfolding after_hours_def split_hours_by_position [OF dist] snd_conv is_normal_entry_def
    by (rule arg_cong [where f = sum_list], rule map_cong) (simp_all only: pw_set)
  have single: "?n = 1 \<longrightarrow> total_monitoring_hours s = 4"
    using Schedule_init_total_hours [OF assms(1)] sum_position_weight [of ?n] by simp
  from weights normal after single show ?thesis by blast
qed

theorem C3_first_and_last_weigh_four_witness:
  "Schedule_init (Date 2025 9 18) (Date 2025 9 18) [(Date 2025 9 18, Some (Time 7 0 0 0))] =
     Inr \<lparr>start_date = Date 2025 9 18, end_date = Date 2025 9 18,
          entries = [\<lparr>entry_d = Date 2025 9 18, entry_t = Some (Time 7 0 0 0)\<rparr>]\<rparr>
   \<and> total_monitoring_hours \<lparr>start_date = Date 2025 9 18, end_date = Date 2025 9 18,
          entries = [\<lparr>entry_d = Date 2025 9 18, entry_t = Some (Time 7 0 0 0)\<rparr>]\<rparr> = 4"
proof -
  have init: "Schedule_init (Date 2025 9 18) (Date 2025 9 18)
      [(Date 2025 9 18, Some (Time 7 0 0 0))] =
     Inr \<lparr>start_date = Date 2025 9 18, end_date = Date 2025 9 18,
          entries = [\<lparr>entry_d = Date 2025 9 18, entry_t = Some (Time 7 0 0 0)\<rparr>]\<rparr>"
    by (simp add: Schedule_init_def order_defs)
  from C3_first_and_last_weigh_four [OF init] init show ?thesis by simp
qed

text \<open>
  Claim C5. Construction raises the range error when \<open>end_date < start_date\<close>, and for
  \<open>start_date \<le> end_date\<close> it returns a schedule for every list of entries: it
  fails exactly when the range is reversed (the lookup \<^verbatim>\<open>by_day[d]\<close> never raises).
\<close>

theorem C5_construction_fails_only_on_reversed_range:
  "(en < st \<longrightarrow> Schedule_init st en xs = Inl (ValueError ''end_date must be >= start_date''))
   \<and> (st \<le> en \<longrightarrow> (\<exists>s. Schedule_init st en xs = Inr s))
   \<and> ((\<exists>e. Schedule_init st en xs = Inl e) \<longleftrightarrow> en < st)"
proof -
  have fail: "Schedule_init st en xs = Inl (ValueError ''end_date must be >= start_date'')"
    if "en < st"
    using that by (rule Schedule_init_Inl)
  have ok: "\<exists>s. Schedule_init st en xs = Inr s" if "st \<le> en"
  proof -
    from that have "\<not> en < st" by simp
    from Schedule_init_Inr [OF this, of xs] show ?thesis by blast
  qed
  have "(\<exists>e. Schedule_init st en xs = Inl e) \<longleftrightarrow> en < st"
  proof
    assume "\<exists>e. Schedule_init st en xs = Inl e"
    then show "en < st" using ok by (cases "st \<le> en") auto
  next
    assume "en < st"
    then show "\<exists>e. Schedule_init st en xs = Inl e" using fail by blast
  qed
  with fail ok show ?thesis by blast
qed

theorem C5_construction_fails_only_on_reversed_range_witness:
  "Date 2025 9 17 < Date 2025 9 18
   \<and> Schedule_init (Date 2025 9 18) (Date 2025 9 17) [(Date 2025 9 18, None)] =
       Inl (ValueError ''end_date must be >= start_date'')
   \<and> Date 2025 9 18 \<le> Date 2025 9 20
   \<and> (\<exists>s. Schedule_init (Date 2025 9 18) (Date 2025 9 20) [(Date 2025 9 18, None)] = Inr s)"
proof -
  have lt: "Date 2025 9 17 < Date 2025 9 18" and le: "Date 2025 9 18 \<le> Date 2025 9 20"
    by (simp_all add: order_defs)
  from lt le
    C5_construction_fails_only_on_reversed_range
      [of "Date 2025 9 17" "Date 2025 9 18" "[(Date 2025 9 18, None)]"]
    C5_construction_fails_only_on_reversed_range
      [of "Date 2025 9 20" "Date 2025 9 18" "[(Date 2025 9 18, None)]"]
  show ?thesis by blast
qed

lemma kept_entry_in_input:
  assumes "k \<in> set (kept_days st en xs)"
  shows "(k, the (map_of xs k)) \<in> set xs"
proof -
  from assms kept_days_props(3) [of st en xs] have "k \<in> fst ` set xs" by simp
  then obtain v where "map_of xs k = Some v"
    by (cases "map_of xs k") (auto simp: map_of_eq_None_iff)
  then show ?thesis by (simp add: map_of_SomeD)
qed

text \<open>
  Claim C6. Let \<open>(d, t)\<close> be the first pair of the input with the in-range date \<open>d\<close>
  (no pair before it has that date). Then the constructed schedule stores exactly one
  entry for \<open>d\<close>, with the time \<open>t\<close>: the times of all later pairs with that date are
  discarded.
\<close>

theorem C6_first_write_wins:
  assumes "Schedule_init st en xs = Inr s"
    and "xs = pre @ (d, t) # post" and "d \<notin> fst ` set pre"
    and "st \<le> d" and "d \<le> en"
  shows "filter (\<lambda>e. entry_d e = d) (entries s) = [\<lparr>entry_d = d, entry_t = t\<rparr>]"
proof -
  have first: "map_of xs d = Some t"
    using assms(2,3) by (rule map_of_first_occurrence)
  have "d \<in> fst ` set xs" using assms(2) by force
  with assms(4,5) have mem: "d \<in> set (kept_days st en xs)"
    by (simp add: kept_days_props(3))
  have "filter (\<lambda>e. entry_d e = d) (entries s)
      = map (\<lambda>k. \<lparr>entry_d = k, entry_t = the (map_of xs k)\<rparr>)
          (filter (\<lambda>k. k = d) (kept_days st en xs))"
    unfolding Schedule_init_InrD(4) [OF assms(1)] by (simp add: filter_map comp_def)
  also have "\<dots> = [\<lparr>entry_d = d, entry_t = t\<rparr>]"
    using filter_eq_singleton [OF kept_days_props(2) mem] first by simp
  finally show ?thesis .
qed

theorem C6_first_write_wins_witness:
  "Schedule_init (Date 2025 9 18) (Date 2025 9 20)
     [(Date 2025 9 18, Some (Time 7 0 0 0)), (Date 2025 9 18, Some (Time 18 0 0 0))] =
     Inr \<lparr>start_date = Date 2025 9 18, end_date = Date 2025 9 20,
          entries = [\<lparr>entry_d = Date 2025 9 18, entry_t = Some (Time 7 0 0 0)\<rparr>]\<rparr>
   \<and> filter (\<lambda>e. entry_d e = Date 2025 9 18)
        [\<lparr>entry_d = Date 2025 9 18, entry_t = Some (Time 7 0 0 0)\<rparr>]
      = [\<lparr>entry_d = Date 2025 9 18, entry_t = Some (Time 7 0 0 0)\<rparr>]"
proof -
  have init: "Schedule_init (Date 2025 9 18) (Date 2025 9 20)
     [(Date 2025 9 18, Some (Time 7 0 0 0)), (Date 2025 9 18, Some (Time 18 0 0 0))] =
     Inr \<lparr>start_date = Date 2025 9 18, end_date = Date 2025 9 20,
          entries = [\<lparr>entry_d = Date 2025 9 18, entry_t = Some (Time 7 0 0 0)\<rparr>]\<rparr>"
    by (simp add: Schedule_init_def order_defs)
  have shape: "[(Date 2025 9 18, Some (Time 7 0 0 0)), (Date 2025 9 18, Some (Time 18 0 0 0))]
      = [] @ (Date 2025 9 18, Some (Time 7 0 0 0)) # [(Date 2025 9 18, Some (Time 18 0 0 0))]"
    by simp
  have fresh: "Date 2025 9 18 \<notin> fst ` set ([] :: (date \<times> time option) list)" by simp
  have lo: "Date 2025 9 18 \<le> Date 2025 9 18" and hi: "Date 2025 9 18 \<le> Date 2025 9 20"
    by (simp_all add: order_defs)
  from C6_first_write_wins [OF init shape fresh lo hi] init show ?thesis by simp
qed

text \<open>
  Claim C7. The stored entries of a constructed schedule are strictly ascending by date,
  have pairwise different dates, lie within \<open>[start_date, end_date]\<close> and come from the
  input. A pair whose date is outside the range is not stored, and removing all such
  pairs from the input gives the same schedule, hence the same hour totals.
\<close>

theorem C7_stored_entries_sorted_unique_in_range:
  assumes "Schedule_init st en xs = Inr s"
  shows "sorted_wrt (<) (map entry_d (entries s))
     \<and> distinct (map entry_d (entries s))
     \<and> (\<forall>e\<in>set (entries s). st \<le> entry_d e \<and> entry_d e \<le> en)
     \<and> (\<forall>e\<in>set (entries s). (entry_d e, entry_t e) \<in> set xs)
     \<and> (\<forall>p\<in>set xs. \<not> (st \<le> fst p \<and> fst p \<le> en) \<longrightarrow> fst p \<notin> entry_d ` set (entries s))
     \<and> Schedule_init st en (filter (\<lambda>p. st \<le> fst p \<and> fst p \<le> en) xs) = Inr s"
proof -
  note days = Schedule_init_InrD(5) [OF assms]
  note es = Schedule_init_InrD(4) [OF assms]
  have sorted: "sorted_wrt (<) (map entry_d (entries s))"
    unfolding days using kept_days_props(1,2) [of st en xs] by (simp add: strict_sorted_iff)
  have dist: "distinct (map entry_d (entries s))"
    using assms by (rule Schedule_init_distinct)
  have "set (map entry_d (entries s)) = {k \<in> fst ` set xs. st \<le> k \<and> k \<le> en}"
    unfolding days by (rule kept_days_props(3))
  then have range: "\<forall>e\<in>set (entries s). st \<le> entry_d e \<and> entry_d e \<le> en" by auto
  then have out:
    "\<forall>p\<in>set xs. \<not> (st \<le> fst p \<and> fst p \<le> en) \<longrightarrow> fst p \<notin> entry_d ` set (entries s)"
    by auto
  have input: "\<forall>e\<in>set (entries s). (entry_d e, entry_t e) \<in> set xs"
    unfolding es using kept_entry_in_input [of _ st en xs] by auto
  have same: "Schedule_init st en (filter (\<lambda>p. st \<le> fst p \<and> fst p \<le> en) xs) = Inr s"
    using assms by (simp add: Schedule_init_filter)
  from sorted dist range input out same show ?thesis by blast
qed

theorem C7_stored_entries_sorted_unique_in_range_witness:
  "Schedule_init (Date 2025 9 18) (Date 2025 9 20)
     [(Date 2025 9 21, None), (Date 2025 9 20, None), (Date 2025 9 18, Some (Time 7 0 0 0)),
      (Date 2025 9 20, Some (Time 9 0 0 0))] =
     Inr \<lparr>start_date = Date 2025 9 18, end_date = Date 2025 9 20,
          entries = [\<lparr>entry_d = Date 2025 9 18, entry_t = Some (Time 7 0 0 0)\<rparr>,
                     \<lparr>entry_d = Date 2025 9 20, entry_t = None\<rparr>]\<rparr>
   \<and> sorted_wrt (<) [Date 2025 9 18, Date 2025 9 20]
   \<and> Schedule_init (Date 2025 9 18) (Date 2025 9 20)
     [(Date 2025 9 20, None), (Date 2025 9 18, Some (Time 7 0 0 0)),
      (Date 2025 9 20, Some (Time 9 0 0 0))] =
     Inr \<lparr>start_date = Date 2025 9 18, end_date = Date 2025 9 20,
          entries = [\<lparr>entry_d = Date 2025 9 18, entry_t = Some (Time 7 0 0 0)\<rparr>,
                     \<lparr>entry_d = Date 2025 9 20, entry_t = None\<rparr>]\<rparr>"
proof -
  have init: "Schedule_init (Date 2025 9 18) (Date 2025 9 20)
     [(Date 2025 9 21, None), (Date 2025 9 20, None), (Date 2025 9 18, Some (Time 7 0 0 0)),
      (Date 2025 9 20, Some (Time 9 0 0 0))] =
     Inr \<lparr>start_date = Date 2025 9 18, end_date = Date 2025 9 20,
          entries = [\<lparr>entry_d = Date 2025 9 18, entry_t = Some (Time 7 0 0 0)\<rparr>,
                     \<lparr>entry_d = Date 2025 9 20, entry_t = None\<rparr>]\<rparr>"
    by (simp add: Schedule_init_def order_defs)
  from C7_stored_entries_sorted_unique_in_range [OF init] init show ?thesis
    by (simp add: order_defs)
qed

text \<open>
  Claim C8. For a constructed schedule, \<open>dry_time\<close> is the day difference
  \<open>end_date - start_date\<close> floored at 0, so it is not negative; for two dates of the
  calendar the floor is idle and \<open>dry_time\<close> is the day difference itself. When no
  entry is stored, the three hour totals are 0.
\<close>

theorem C8_dry_time_and_empty_schedule:
  assumes "Schedule_init st en xs = Inr s"
  shows "dry_time s = max (days_between en st) 0
     \<and> 0 \<le> dry_time s
     \<and> (valid_date st \<and> valid_date en \<longrightarrow> dry_time s = toordinal en - toordinal st)
     \<and> (entries s = [] \<longrightarrow>
          monitoring_hours s = 0 \<and> after_hours s = 0 \<and> total_monitoring_hours s = 0)"
proof -
  note fields = Schedule_init_InrD(2,3) [OF assms]
  have le: "st \<le> en" using assms by (rule Schedule_init_InrD(1))
  have dry: "dry_time s = max (days_between en st) 0"
    by (simp add: dry_time_def fields)
  have "dry_time s = toordinal en - toordinal st" if "valid_date st" "valid_date en"
    using toordinal_mono [OF that le] by (simp add: dry days_between_def)
  moreover have "entries s = [] \<longrightarrow>
          monitoring_hours s = 0 \<and> after_hours s = 0 \<and> total_monitoring_hours s = 0"
    by (simp add: monitoring_hours_def after_hours_def total_monitoring_hours_def
        split_hours_def)
  ultimately show ?thesis using dry by simp
qed

theorem C8_dry_time_and_empty_schedule_witness:
  "Schedule_init (Date 2025 9 18) (Date 2025 10 2) [(Date 2025 9 17, None)] =
     Inr \<lparr>start_date = Date 2025 9 18, end_date = Date 2025 10 2, entries = []\<rparr>
   \<and> valid_date (Date 2025 9 18) \<and> valid_date (Date 2025 10 2)
   \<and> dry_time \<lparr>start_date = Date 2025 9 18, end_date = Date 2025 10 2, entries = []\<rparr> = 14
   \<and> monitoring_hours \<lparr>start_date = Date 2025 9 18, end_date = Date 2025 10 2, entries = []\<rparr> = 0
   \<and> after_hours \<lparr>start_date = Date 2025 9 18, end_date = Date 2025 10 2, entries = []\<rparr> = 0
   \<and> total_monitoring_hours
        \<lparr>start_date = Date 2025 9 18, end_date = Date 2025 10 2, entries = []\<rparr> = 0"
proof -
  have init: "Schedule_init (Date 2025 9 18) (Date 2025 10 2) [(Date 2025 9 17, None)] =
     Inr \<lparr>start_date = Date 2025 9 18, end_date = Date 2025 10 2, entries = []\<rparr>"
    by (simp add: Schedule_init_def order_defs)
  have valid: "valid_date (Date 2025 9 18)" "valid_date (Date 2025 10 2)"
    by (simp_all add: calendar_defs)
  have ords: "toordinal (Date 2025 10 2) - toordinal (Date 2025 9 18) = 14"
    by (simp add: calendar_defs)
  from C8_dry_time_and_empty_schedule [OF init] init valid ords show ?thesis by simp
qed

text \<open>
  Claim C9. For a constructed schedule, \<open>total_monitoring_hours\<close> is
  \<open>monitoring_hours + after_hours\<close>, and it is the sum of the base weights of all stored
  entries, as the program computes them and as their positions give them. None of the
  three totals is negative.
\<close>

theorem C9_total_is_sum_of_parts:
  assumes "Schedule_init st en xs = Inr s"
  shows "total_monitoring_hours s = monitoring_hours s + after_hours s
     \<and> total_monitoring_hours s =
         (\<Sum>e\<leftarrow>entries s. base_hours (entry_d e = entry_d (hd (entries s)))
                                     (entry_d e = entry_d (last (entries s))))
     \<and> total_monitoring_hours s =
         (\<Sum>i\<leftarrow>[0..<length (entries s)].
            if i = 0 \<or> i = length (entries s) - 1 then 4 else 2)
     \<and> 0 \<le> monitoring_hours s \<and> 0 \<le> after_hours s \<and> 0 \<le> total_monitoring_hours s"
proof -
  let ?n = "length (entries s)"
  let ?w = "\<lambda>e. base_hours (entry_d e = entry_d (hd (entries s)))
                            (entry_d e = entry_d (last (entries s)))"
  have dist: "distinct (map entry_d (entries s))"
    using assms by (rule Schedule_init_distinct)
  have parts: "total_monitoring_hours s = monitoring_hours s + after_hours s"
    by (simp add: total_monitoring_hours_def monitoring_hours_def after_hours_def
        split: prod.splits)
  have pos: "total_monitoring_hours s = (\<Sum>i\<leftarrow>[0..<?n]. position_weight ?n i)"
    using assms by (rule Schedule_init_total_hours)
  have "(\<Sum>i\<leftarrow>[0..<?n]. position_weight ?n i) = (\<Sum>i\<leftarrow>[0..<?n]. ?w (entries s ! i))"
    by (rule arg_cong [where f = sum_list], rule map_cong)
      (simp_all add: base_hours_position [OF dist])
  also have "\<dots> = (\<Sum>e\<leftarrow>entries s. ?w e)"
    by (rule sum_list_by_position [symmetric])
  finally have code: "total_monitoring_hours s = (\<Sum>e\<leftarrow>entries s. ?w e)"
    unfolding pos .
  have "(\<Sum>i\<leftarrow>[0..<?n]. position_weight ?n i)
      = (\<Sum>i\<leftarrow>[0..<?n]. if i = 0 \<or> i = ?n - 1 then 4 else 2)"
    by (rule arg_cong [where f = sum_list], rule map_cong)
      (auto simp: position_weight_def)
  then have spec: "total_monitoring_hours s
      = (\<Sum>i\<leftarrow>[0..<?n]. if i = 0 \<or> i = ?n - 1 then 4 else 2)"
    unfolding pos .
  have n0: "0 \<le> monitoring_hours s"
    unfolding monitoring_hours_def split_hours_by_position [OF dist] fst_conv
    by (rule sum_list_nonneg_if) (rule position_weight_nonneg)
  have a0: "0 \<le> after_hours s"
    unfolding after_hours_def split_hours_by_position [OF dist] snd_conv
    by (rule sum_list_nonneg) (auto simp: position_weight_nonneg)
  from parts code spec n0 a0 show ?thesis by simp
qed

theorem C9_total_is_sum_of_parts_witness:
  "Schedule_init (Date 2025 9 18) (Date 2025 9 22)
     [(Date 2025 9 22, Some (Time 9 0 0 0)), (Date 2025 9 18, Some (Time 7 0 0 0))] =
     Inr \<lparr>start_date = Date 2025 9 18, end_date = Date 2025 9 22,
          entries = [\<lparr>entry_d = Date 2025 9 18, entry_t = Some (Time 7 0 0 0)\<rparr>,
                     \<lparr>entry_d = Date 2025 9 22, entry_t = Some (Time 9 0 0 0)\<rparr>]\<rparr>
   \<and> total_monitoring_hours \<lparr>start_date = Date 2025 9 18, end_date = Date 2025 9 22,
          entries = [\<lparr>entry_d = Date 2025 9 18, entry_t = Some (Time 7 0 0 0)\<rparr>,
                     \<lparr>entry_d = Date 2025 9 22, entry_t = Some (Time 9 0 0 0)\<rparr>]\<rparr> = 8"
proof -
  have init: "Schedule_init (Date 2025 9 18) (Date 2025 9 22)
     [(Date 2025 9 22, Some (Time 9 0 0 0)), (Date 2025 9 18, Some (Time 7 0 0 0))] =
     Inr \<lparr>start_date = Date 2025 9 18, end_date = Date 2025 9 22,
          entries = [\<lparr>entry_d = Date 2025 9 18, entry_t = Some (Time 7 0 0 0)\<rparr>,
                     \<lparr>entry_d = Date 2025 9 22, entry_t = Some (Time 9 0 0 0)\<rparr>]\<rparr>"
    by (simp add: Schedule_init_def order_defs)
  from C9_total_is_sum_of_parts [OF init] init show ?thesis by (simp add: base_hours_def)
qed

text \<open>
  Claim C10. For a constructed schedule with \<open>n\<close> stored entries,
  \<open>total_monitoring_hours\<close> is 0 for \<open>n = 0\<close>, 4 for \<open>n = 1\<close> and \<open>2 * n + 4\<close> for
  \<open>n \<ge> 2\<close>, whatever the classification of the entries.
\<close>

theorem C10_total_depends_only_on_count:
  assumes "Schedule_init st en xs = Inr s"
  shows "total_monitoring_hours s =
     (if length (entries s) = 0 then 0
      else if length (entries s) = 1 then 4
      else 2 * real (length (entries s)) + 4)"
  unfolding Schedule_init_total_hours [OF assms] by (rule sum_position_weight)

theorem C10_total_depends_only_on_count_witness:
  "Schedule_init (Date 2025 9 18) (Date 2025 9 20)
     [(Date 2025 9 18, Some (Time 7 0 0 0)), (Date 2025 9 19, Some (Time 18 0 0 0)),
      (Date 2025 9 20, None)] =
   Inr \<lparr>start_date = Date 2025 9 18, end_date = Date 2025 9 20,
        entries = [\<lparr>entry_d = Date 2025 9 18, entry_t = Some (Time 7 0 0 0)\<rparr>,
                   \<lparr>entry_d = Date 2025 9 19, entry_t = Some (Time 18 0 0 0)\<rparr>,
                   \<lparr>entry_d = Date 2025 9 20, entry_t = None\<rparr>]\<rparr>
   \<and> total_monitoring_hours \<lparr>start_date = Date 2025 9 18, end_date = Date 2025 9 20,
        entries = [\<lparr>entry_d = Date 2025 9 18, entry_t = Some (Time 7 0 0 0)\<rparr>,
                   \<lparr>entry_d = Date 2025 9 19, entry_t = Some (Time 18 0 0 0)\<rparr>,
                   \<lparr>entry_d = Date 2025 9 20, entry_t = None\<rparr>]\<rparr> = 10"
  using C10_total_depends_only_on_count [OF spec_example_init] spec_example_init by simp

section \<open>The claim about the parser\<close>

lemma str_strip_empty_iff: "str_strip s = [] \<longleftrightarrow> (\<forall>c\<in>set s. py_isspace c)"
proof -
  have "dropWhile py_isspace (rev (dropWhile py_isspace s)) = []
      \<longleftrightarrow> dropWhile py_isspace s = []"
  proof
    assume all: "dropWhile py_isspace (rev (dropWhile py_isspace s)) = []"
    show "dropWhile py_isspace s = []"
    proof (rule ccontr)
      assume ne: "dropWhile py_isspace s \<noteq> []"
      then have "\<not> py_isspace (hd (dropWhile py_isspace s))" by (rule hd_dropWhile)
      moreover from ne have "hd (dropWhile py_isspace s) \<in> set (rev (dropWhile py_isspace s))"
        by simp
      ultimately show False using all by (auto simp: dropWhile_eq_Nil_conv)
    qed
  qed (auto dest: set_dropWhileD)
  then show ?thesis by (simp add: str_strip_def dropWhile_eq_Nil_conv)
qed

lemma split_from_empty_iff:
  "split_from cur cs = [] \<longleftrightarrow> cur = [] \<and> (\<forall>c\<in>set cs. py_isspace c)"
  by (induction cs arbitrary: cur) auto

lemma str_strip_idem: "str_strip (str_strip s) = str_strip s"
proof (cases "str_strip s = []")
  case True
  have "str_strip [] = []" by (simp add: str_strip_def)
  with True show ?thesis by (simp only:)
next
  case False
  let ?a = "dropWhile py_isspace s"
  let ?b = "dropWhile py_isspace (rev ?a)"
  from False have b: "?b \<noteq> []" by (simp add: str_strip_def)
  then have a: "?a \<noteq> []" by (auto dest: set_dropWhileD)
  have hb: "\<not> py_isspace (hd ?b)" using b by (rule hd_dropWhile)
  have ha: "\<not> py_isspace (hd ?a)" using a by (rule hd_dropWhile)
  have "rev ?a = takeWhile py_isspace (rev ?a) @ ?b" by simp
  then have "?a = rev ?b @ rev (takeWhile py_isspace (rev ?a))"
    by (metis rev_append rev_rev_ident)
  then have "hd ?a = hd (rev ?b)" using b by (metis hd_append2 rev_is_Nil_conv)
  with ha have "dropWhile py_isspace (rev ?b) = rev ?b"
    using b by (cases "rev ?b") auto
  moreover have "dropWhile py_isspace ?b = ?b" using hb b by (cases ?b) auto
  ultimately show ?thesis by (simp add: str_strip_def)
qed

lemma str_split_strip_nonempty:
  assumes "str_strip s \<noteq> []"
  shows "str_split (str_strip s) \<noteq> []"
proof -
  from assms have "str_strip (str_strip s) \<noteq> []" by (simp add: str_strip_idem)
  then have "\<not> (\<forall>c\<in>set (str_strip s). py_isspace c)" by (simp add: str_strip_empty_iff)
  then show ?thesis by (simp add: str_split_def split_from_empty_iff)
qed

lemma strptime_date_valid: "strptime_date s = Some a \<Longrightarrow> valid_date a"
  by (auto simp: strptime_date_def Let_def split: list.splits if_splits)

lemma digit_facts:
  assumes "c \<in> set digits"
  shows "\<not> py_isspace c" and "0 \<le> digit_val c" and "digit_val c \<le> 9"
  using assms by (auto simp: digits_def py_isspace_def digit_val_def)

lemma digit_class_bounds:
  "c \<in> set ''2'' \<Longrightarrow> c \<in> set digits \<and> digit_val c = 2"
  "c \<in> set ''0123'' \<Longrightarrow> c \<in> set digits \<and> digit_val c \<le> 3"
  "c \<in> set ''01'' \<Longrightarrow> c \<in> set digits \<and> digit_val c \<le> 1"
  "c \<in> set ''012345'' \<Longrightarrow> c \<in> set digits \<and> digit_val c \<le> 5"
  by (auto simp: digits_def digit_val_def)

lemma py_int_digits:
  "\<not> py_isspace c \<Longrightarrow> py_int [c] = digit_val c"
  "\<not> py_isspace c1 \<Longrightarrow> \<not> py_isspace c2 \<Longrightarrow> py_int [c1, c2] = 10 * digit_val c1 + digit_val c2"
  by (simp_all add: py_int_def str_strip_def)

lemma re_H_range:
  assumes "(h, r) \<in> set (re_H s)"
  shows "0 \<le> py_int h \<and> py_int h < 24"
proof -
  from assms consider
      (a) c1 c2 where "h = [c1, c2]" "c1 \<in> set ''2''" "c2 \<in> set ''0123''"
    | (b) c1 c2 where "h = [c1, c2]" "c1 \<in> set ''01''" "c2 \<in> set digits"
    | (c) c where "h = [c]" "c \<in> set digits"
    unfolding re_H_def cls1_def cls2_def set_append Un_iff
    by (auto split: list.splits if_splits)
  then show ?thesis
  proof cases
    case a
    with digit_class_bounds(1) [of c1] digit_class_bounds(2) [of c2]
      digit_facts [of c1] digit_facts [of c2]
    show ?thesis by (simp add: py_int_digits)
  next
    case b
    with digit_class_bounds(3) [of c1] digit_facts [of c1] digit_facts [of c2]
    show ?thesis by (simp add: py_int_digits)
  next
    case c
    with digit_facts [of c] show ?thesis by (simp add: py_int_digits)
  qed
qed

lemma re_M_range:
  assumes "(m, r) \<in> set (re_M s)"
  shows "0 \<le> py_int m \<and> py_int m < 60"
proof -
  from assms consider
      (a) c1 c2 where "m = [c1, c2]" "c1 \<in> set ''012345''" "c2 \<in> set digits"
    | (b) c where "m = [c]" "c \<in> set digits"
    unfolding re_M_def cls1_def cls2_def set_append Un_iff
    by (auto split: list.splits if_splits)
  then show ?thesis
  proof cases
    case a
    with digit_class_bounds(4) [of c1] digit_facts [of c1] digit_facts [of c2]
    show ?thesis by (simp add: py_int_digits)
  next
    case b
    with digit_facts [of c] show ?thesis by (simp add: py_int_digits)
  qed
qed

lemma strptime_time_valid:
  assumes "strptime_time s = Some x"
  shows "valid_time x"
proof -
  let ?ms = "[(h, m, r2). (h, r1) \<leftarrow> re_H s, (m, r2) \<leftarrow> re_M r1]"
  from assms obtain h m rest tl where ms: "?ms = (h, m, rest) # tl"
    and x: "x = Time (py_int h) (py_int m) 0 0"
    by (auto simp: strptime_time_def split: list.splits if_splits)
  have "(h, m, rest) \<in> set ?ms" unfolding ms by simp
  then obtain r1 where "(h, r1) \<in> set (re_H s)" "(m, rest) \<in> set (re_M r1)"
    by auto
  with re_H_range re_M_range show ?thesis
    unfolding x by (simp add: valid_time_def)
qed

lemma parse_date_time_cases:
  assumes "str_strip s \<noteq> []"
  obtains p0 ps where "str_split (str_strip s) = p0 # ps"
  using str_split_strip_nonempty [OF assms] by (cases "str_split (str_strip s)") auto

text \<open>
  Claim C4, as stated, says that a token with more than two whitespace-separated parts
  yields the bad-entry error. \<^verbatim>\<open>parse_date_time\<close> parses the first part as a date
  before it counts the parts, so a token of three parts whose first part is not a date
  yields the invalid-date error instead.
\<close>

theorem C4_parse_date_time_counterexample:
  "2 < length (str_split (str_strip ''13/40/2025 0700 extra''))
   \<and> parse_date_time ''13/40/2025 0700 extra'' =
       Inr (None, None,
         Some (''Invalid date '' @ [CHR 0x27] @ ''13/40/2025'' @ [CHR 0x27]
           @ ''. Use MM/DD/YYYY.''))
   \<and> parse_date_time ''13/40/2025 0700 extra'' \<noteq>
       Inr (None, None,
         Some (''Bad entry '' @ [CHR 0x27] @ ''13/40/2025 0700 extra'' @ [CHR 0x27]
           @ ''. Use '' @ [CHR 0x27] @ ''MM/DD/YYYY [HHMM]'' @ [CHR 0x27] @ ''.''))"
  by code_simp

text \<open>
  Claim C4, amended. For every token \<^verbatim>\<open>parse_date_time\<close> returns without raising,
  either a date of the calendar with an optional time of day and no error, or an error
  message with neither date nor time. The message is \<^verbatim>\<open>Empty entry\<close> exactly when
  the token is empty or whitespace only. A token with more than two whitespace-separated
  parts yields the bad-entry error naming \<^verbatim>\<open>'MM/DD/YYYY [HHMM]'\<close> when its first part
  is a valid date, and the invalid-date error naming that first part when it is not.
\<close>

theorem C4_parse_date_time_amended:
  "((\<exists>d t. parse_date_time s = Inr (Some d, t, None)
        \<and> valid_date d \<and> (\<forall>x. t = Some x \<longrightarrow> valid_time x))
     \<or> (\<exists>msg. parse_date_time s = Inr (None, None, Some msg)))
   \<and> ((\<forall>c\<in>set s. py_isspace c)
        \<longleftrightarrow> parse_date_time s = Inr (None, None, Some ''Empty entry''))
   \<and> (2 < length (str_split (str_strip s)) \<longrightarrow>
        parse_date_time s =
          Inr (None, None,
            Some (if strptime_date (hd (str_split (str_strip s))) = None
                  then ''Invalid date '' @ [CHR 0x27] @ hd (str_split (str_strip s))
                    @ [CHR 0x27] @ ''. Use MM/DD/YYYY.''
                  else ''Bad entry '' @ [CHR 0x27] @ str_strip s @ [CHR 0x27] @ ''. Use ''
                    @ [CHR 0x27] @ ''MM/DD/YYYY [HHMM]'' @ [CHR 0x27] @ ''.'')))"
proof (cases "str_strip s = []")
  case True
  then have all: "\<forall>c\<in>set s. py_isspace c" by (simp add: str_strip_empty_iff)
  have split: "str_split [] = []" by (simp add: str_split_def)
  from True have "parse_date_time s = Inr (None, None, Some ''Empty entry'')"
    by (simp add: parse_date_time_def)
  with all True split show ?thesis by simp
next
  case False
  then have not_all: "\<not> (\<forall>c\<in>set s. py_isspace c)" by (simp add: str_strip_empty_iff)
  from False obtain p0 ps where parts: "str_split (str_strip s) = p0 # ps"
    by (rule parse_date_time_cases)
  show ?thesis
  proof (cases "strptime_date p0")
    case None
    with False parts have "parse_date_time s =
        Inr (None, None,
          Some (''Invalid date '' @ [CHR 0x27] @ p0 @ [CHR 0x27] @ ''. Use MM/DD/YYYY.''))"
      by (simp add: parse_date_time_def)
    with not_all parts None show ?thesis by simp
  next
    case (Some d)
    then have vd: "valid_date d" by (rule strptime_date_valid)
    consider (one) "ps = []" | (two) p1 where "ps = [p1]" | (more) "2 \<le> length ps"
      by (cases ps rule: list.exhaust; cases "tl ps") auto
    then show ?thesis
    proof cases
      case one
      with False parts Some have "parse_date_time s = Inr (Some d, None, None)"
        by (simp add: parse_date_time_def)
      with not_all parts one vd show ?thesis by simp
    next
      case two
      show ?thesis
      proof (cases "strptime_time p1")
        case None
        with False parts Some two have "parse_date_time s =
            Inr (None, None,
              Some (''Invalid time '' @ [CHR 0x27] @ p1 @ [CHR 0x27] @ ''. Use HHMM (24h).''))"
          by (simp add: parse_date_time_def)
        with not_all parts two show ?thesis by simp
      next
        case (Some x)
        then have vt: "valid_time x" by (rule strptime_time_valid)
        from False parts \<open>strptime_date p0 = Some d\<close> two Some
        have "parse_date_time s = Inr (Some d, Some x, None)"
          by (simp add: parse_date_time_def)
        with not_all parts two vd vt show ?thesis by simp
      qed
    next
      case more
      with False parts Some have "parse_date_time s =
          Inr (None, None,
            Some (''Bad entry '' @ [CHR 0x27] @ str_strip s @ [CHR 0x27] @ ''. Use ''
              @ [CHR 0x27] @ ''MM/DD/YYYY [HHMM]'' @ [CHR 0x27] @ ''.''))"
        by (simp add: parse_date_time_def)
      with not_all parts Some show ?thesis by simp
    qed
  qed
qed

theorem C4_parse_date_time_amended_witness:
  "py_isspace (CHR '' '')
   \<and> parse_date_time '' '' = Inr (None, None, Some ''Empty entry'')
   \<and> 2 < length (str_split (str_strip ''09/18/2025 0700 extra''))
   \<and> parse_date_time ''09/18/2025 0700 extra'' =
       Inr (None, None,
         Some (''Bad entry '' @ [CHR 0x27] @ ''09/18/2025 0700 extra'' @ [CHR 0x27]
           @ ''. Use '' @ [CHR 0x27] @ ''MM/DD/YYYY [HHMM]'' @ [CHR 0x27] @ ''.''))
   \<and> parse_date_time ''09/18/2025 0700'' =
       Inr (Some (Date 2025 9 18), Some (Time 7 0 0 0), None)
   \<and> valid_date (Date 2025 9 18) \<and> valid_time (Time 7 0 0 0)"
proof -
  have sp: "py_isspace (CHR '' '')" by (simp add: py_isspace_def)
  have len: "2 < length (str_split (str_strip ''09/18/2025 0700 extra''))" by code_simp
  have strip: "str_strip ''09/18/2025 0700 extra'' = ''09/18/2025 0700 extra''" by code_simp
  have date: "strptime_date (hd (str_split (str_strip ''09/18/2025 0700 extra''))) \<noteq> None"
    by code_simp
  have ok: "parse_date_time ''09/18/2025 0700'' =
       Inr (Some (Date 2025 9 18), Some (Time 7 0 0 0), None)"
    by code_simp
  from sp len strip date ok
    C4_parse_date_time_amended [of "'' ''"]
    C4_parse_date_time_amended [of "''09/18/2025 0700 extra''"]
    C4_parse_date_time_amended [of "''09/18/2025 0700''"]
  show ?thesis by simp
qed

end
